theory Spec2Isabelle
  imports Main "HOL-Library.AList"
begin

section \<open>Python values shared by both halves of the library\<close>

text \<open>
  Python objects are referred to by identity. An object identity is a natural number;
  the objects themselves live in heaps (total functions from identities to records), so
  that two references to one object see the same fields, as in Python.
\<close>

type_synonym obj_id = nat

text \<open>
  The exceptions the modelled code can raise. \<open>KeyError\<close> carries the key it was
  raised with: an entity identity or a component name. \<open>RecursionError\<close> is what Python
  raises when the nesting of calls exceeds the interpreter's limit (a \<open>RuntimeError\<close>
  in Python 2).
\<close>

datatype key = EntityKey int | NameKey string

datatype exn =
    KeyError key
  | IndexError
  | ValueError
  | AssertionError
  | AttributeError
  | RecursionError

section \<open>The component entity manager (grease/component/manager.py)\<close>

subsection \<open>Component stores\<close>

text \<open>
  Modelled from the spec: the component class itself (\<^verbatim>\<open>grease.component\<close>) is not among
  the sources; only its use by the manager is. The spec describes a component store as
  ``a mapping from entity identity to a per-entity data record'' in which ``a given
  identity maps to at most one record'', with deletion and lookup by identity, and says
  that binding ``sets the store's owning manager''. The manager relies on
  \<^verbatim>\<open>del com[entity_id]\<close> raising \<^verbatim>\<open>KeyError\<close> when the store has no record
  for the identity, on \<^verbatim>\<open>com.entity_id_set\<close> being the set of identities that have a
  record, and on \<^verbatim>\<open>com[id]\<close> returning the record.

  The records are kept as an association list, read through \<open>map_of\<close>. The field
  \<open>has_set_manager\<close> is \<^verbatim>\<open>hasattr(component, 'set_manager')\<close>; \<open>set_manager_calls\<close> is
  a ghost field listing the managers \<^verbatim>\<open>set_manager\<close> was called with, oldest first.
\<close>

record 'r component =
  has_set_manager :: bool
  comp_manager :: "obj_id option"
  set_manager_calls :: "obj_id list"
  records :: "(int \<times> 'r) list"

definition component_contains :: "'r component \<Rightarrow> int \<Rightarrow> bool" where
  "component_contains com entity_id = (entity_id \<in> fst ` set (records com))"

definition component_delitem :: "'r component \<Rightarrow> int \<Rightarrow> exn + 'r component" where
  "component_delitem com entity_id =
     (if component_contains com entity_id
      then Inr (com\<lparr>records := AList.delete entity_id (records com)\<rparr>)
      else Inl (KeyError (EntityKey entity_id)))"

definition component_getitem :: "'r component \<Rightarrow> int \<Rightarrow> exn + 'r" where
  "component_getitem com entity_id =
     (case map_of (records com) entity_id of
        None \<Rightarrow> Inl (KeyError (EntityKey entity_id))
      | Some r \<Rightarrow> Inr r)"

text \<open>
  A Python set is iterated in an order the language does not fix. The model lists the
  members without repetition, in the order of the store's records; the theorems below
  speak of the set of the members only.
\<close>

definition entity_id_set :: "'r component \<Rightarrow> int list" where
  "entity_id_set com = remdups (map fst (records com))"

definition component_set_manager :: "'r component \<Rightarrow> obj_id \<Rightarrow> 'r component" where
  "component_set_manager com manager =
     com\<lparr>comp_manager := Some manager,
         set_manager_calls := set_manager_calls com @ [manager]\<rparr>"

subsection \<open>Systems\<close>

text \<open>
  Systems are objects supplied by the application. The manager only tests them for a
  \<^verbatim>\<open>set_manager\<close> method and calls their \<^verbatim>\<open>run(dt)\<close>. What the call does inside the
  system is the application's business; the model keeps whether it returns
  (\<open>run_raises = None\<close>) or raises.
\<close>

record system =
  sys_has_set_manager :: bool
  sys_set_manager_calls :: "obj_id list"
  run_raises :: "exn option"

subsection \<open>Entities\<close>

text \<open>
  Modelled from the spec: the entity class (\<^verbatim>\<open>grease.entity\<close>) is not among the sources.
  An entity is ``a bare identity'': the manager builds it from itself and the identity,
  and reads the identity back as the attribute \<^verbatim>\<open>entity_id\<close>. The manager's
  \<^verbatim>\<open>__contains__\<close> and \<^verbatim>\<open>__delitem__\<close> accept either an entity or a bare identity
  (\<^verbatim>\<open>getattr(entity, "entity_id", entity)\<close>).
\<close>

datatype entity = Entity obj_id int

datatype entity_ref = ByEntity entity | ById int

fun getattr_entity_id :: "entity_ref \<Rightarrow> int" where
  "getattr_entity_id (ByEntity (Entity manager i)) = i"
| "getattr_entity_id (ById i) = i"

subsection \<open>The manager and its component map\<close>

text \<open>
  One record holds the manager object, its component map and the heaps of the objects
  they refer to:
  \<^item> \<open>this\<close> is the identity of the manager object (\<^verbatim>\<open>self\<close>);
  \<^item> \<open>cm_manager\<close> and \<open>component_map\<close> are the component map's \<^verbatim>\<open>_manager\<close> and its
    dictionary contents (names to component objects); the dictionary is an association
    list read through \<open>map_of\<close>, whose order stands for the order in which Python 2
    iterates the dictionary;
  \<^item> \<open>entities\<close>, \<open>systems\<close>, \<open>entity_id\<close> and \<open>time\<close> are the manager's \<^verbatim>\<open>_entities\<close>,
    \<^verbatim>\<open>systems\<close>, \<^verbatim>\<open>_entity_id\<close> and \<^verbatim>\<open>time\<close>;
  \<^item> \<open>comp_heap\<close> and \<open>sys_heap\<close> hold the component and system objects;
  \<^item> \<open>run_log\<close> is a ghost field: one entry for every call of a system's \<^verbatim>\<open>run\<close>, oldest
    first, with the system, the argument and the manager's clock at the time of call.
  The clock has the type of \<^verbatim>\<open>dt\<close>, whatever numbers the application uses.
\<close>

record ('r, 't) cem =
  this :: obj_id
  cm_manager :: obj_id
  component_map :: "(string \<times> obj_id) list"
  entities :: "int set"
  systems :: "obj_id list"
  entity_id :: int
  time :: 't
  comp_heap :: "obj_id \<Rightarrow> 'r component"
  sys_heap :: "obj_id \<Rightarrow> system"
  run_log :: "(obj_id \<times> 't \<times> 't) list"

text \<open>\<^verbatim>\<open>ComponentMap.__setitem__\<close>\<close>

definition ComponentMap_setitem :: "string \<Rightarrow> obj_id \<Rightarrow> ('r, 't) cem \<Rightarrow> ('r, 't) cem" where
  "ComponentMap_setitem name component st =
     (let st1 = st\<lparr>component_map := AList.update name component (component_map st)\<rparr>
      in if has_set_manager (comp_heap st1 component)
         then st1\<lparr>comp_heap := (comp_heap st1)
                (component := component_set_manager (comp_heap st1 component) (cm_manager st1))\<rparr>
         else st1)"

text \<open>\<^verbatim>\<open>ComponentMap.__init__\<close>: the dictionary starts empty.\<close>

definition ComponentMap_init ::
  "obj_id \<Rightarrow> (string \<times> obj_id) list \<Rightarrow> ('r, 't) cem \<Rightarrow> ('r, 't) cem" where
  "ComponentMap_init manager components st =
     fold (\<lambda>(name, com). ComponentMap_setitem name com) components
       (st\<lparr>cm_manager := manager, component_map := []\<rparr>)"

text \<open>\<^verbatim>\<open>ComponentMap.__getitem__\<close>, inherited from \<^verbatim>\<open>dict\<close>.\<close>

definition ComponentMap_getitem :: "('r, 't) cem \<Rightarrow> string \<Rightarrow> exn + obj_id" where
  "ComponentMap_getitem st name =
     (case map_of (component_map st) name of
        None \<Rightarrow> Inl (KeyError (NameKey name))
      | Some c \<Rightarrow> Inr c)"

text \<open>\<^verbatim>\<open>ComponentMap.__iter__\<close>: the values, not the names.\<close>

definition ComponentMap_iter :: "('r, 't) cem \<Rightarrow> obj_id list" where
  "ComponentMap_iter st = map snd (component_map st)"

definition system_set_manager :: "system \<Rightarrow> obj_id \<Rightarrow> system" where
  "system_set_manager sy manager =
     sy\<lparr>sys_set_manager_calls := sys_set_manager_calls sy @ [manager]\<rparr>"

definition bind_system :: "obj_id \<Rightarrow> ('r, 't) cem \<Rightarrow> ('r, 't) cem" where
  "bind_system sy st =
     (if sys_has_set_manager (sys_heap st sy)
      then st\<lparr>sys_heap := (sys_heap st)(sy := system_set_manager (sys_heap st sy) (this st))\<rparr>
      else st)"

text \<open>
  \<^verbatim>\<open>ComponentEntityManager.__init__(self, systems=(), **components)\<close>. The keyword
  arguments arrive as a dictionary, given here as its list of items; the heaps hold the
  objects the arguments refer to.
\<close>

definition cem_init ::
  "obj_id \<Rightarrow> obj_id list \<Rightarrow> (string \<times> obj_id) list \<Rightarrow>
   (obj_id \<Rightarrow> 'r component) \<Rightarrow> (obj_id \<Rightarrow> system) \<Rightarrow> ('r, 't::zero) cem" where
  "cem_init self sys components ch sh =
     (let st0 = \<lparr>this = self, cm_manager = self, component_map = [], entities = {},
                 systems = [], entity_id = 0, time = 0, comp_heap = ch, sys_heap = sh,
                 run_log = []\<rparr>;
          st1 = ComponentMap_init self components st0;
          st2 = st1\<lparr>entities := {}\<rparr>;
          st3 = st2\<lparr>systems := sys\<rparr>;
          st4 = fold bind_system (systems st3) st3;
          st5 = st4\<lparr>entity_id := 0\<rparr>
      in st5\<lparr>time := 0\<rparr>)"

text \<open>\<^verbatim>\<open>add_system\<close> and \<^verbatim>\<open>remove_system\<close>\<close>

definition add_system :: "obj_id \<Rightarrow> ('r, 't) cem \<Rightarrow> ('r, 't) cem" where
  "add_system sy st = (let st1 = bind_system sy st in st1\<lparr>systems := systems st1 @ [sy]\<rparr>)"

definition remove_system :: "obj_id \<Rightarrow> ('r, 't) cem \<Rightarrow> (exn + unit) \<times> ('r, 't) cem" where
  "remove_system sy st =
     (if sy \<in> set (systems st)
      then (Inr (), st\<lparr>systems := remove1 sy (systems st)\<rparr>)
      else (Inl ValueError, st))"

text \<open>
  \<^verbatim>\<open>run(self, dt)\<close>. The loop runs over the tuple \<^verbatim>\<open>self.systems\<close> as it is when the loop
  starts. A call of \<^verbatim>\<open>system.run(dt)\<close> is entered in \<open>run_log\<close>; when it raises, the
  exception leaves the loop and \<^verbatim>\<open>run\<close>.
\<close>

fun run_loop :: "'t \<Rightarrow> obj_id list \<Rightarrow> ('r, 't) cem \<Rightarrow> (exn + unit) \<times> ('r, 't) cem" where
  "run_loop dt [] st = (Inr (), st)"
| "run_loop dt (sy # rest) st =
     (let st1 = st\<lparr>run_log := run_log st @ [(sy, dt, time st)]\<rparr>
      in case run_raises (sys_heap st1 sy) of
           Some e \<Rightarrow> (Inl e, st1)
         | None \<Rightarrow> run_loop dt rest st1)"

definition run :: "'t::plus \<Rightarrow> ('r, 't) cem \<Rightarrow> (exn + unit) \<times> ('r, 't) cem" where
  "run dt st = (let st1 = st\<lparr>time := time st + dt\<rparr> in run_loop dt (systems st1) st1)"

text \<open>\<^verbatim>\<open>__contains__\<close>, \<^verbatim>\<open>__len__\<close> and \<^verbatim>\<open>__getitem__\<close>\<close>

definition cem_contains :: "('r, 't) cem \<Rightarrow> entity_ref \<Rightarrow> bool" where
  "cem_contains st e = (getattr_entity_id e \<in> entities st)"

definition cem_len :: "('r, 't) cem \<Rightarrow> nat" where
  "cem_len st = card (entities st)"

definition cem_getitem :: "('r, 't) cem \<Rightarrow> int \<Rightarrow> exn + entity" where
  "cem_getitem st i =
     (if i \<in> entities st then Inr (Entity (this st) i) else Inl (KeyError (EntityKey i)))"

text \<open>
  \<^verbatim>\<open>__delitem__\<close>. The loop visits the values of the component map; its body is
  \<^verbatim>\<open>try: del com[entity_id] except KeyError: pass\<close>, so a \<^verbatim>\<open>KeyError\<close> of the store is
  dropped and any other exception leaves the loop and the method.
\<close>

fun delete_loop :: "int \<Rightarrow> obj_id list \<Rightarrow> ('r, 't) cem \<Rightarrow> (exn + unit) \<times> ('r, 't) cem" where
  "delete_loop i [] st = (Inr (), st)"
| "delete_loop i (com # rest) st =
     (case component_delitem (comp_heap st com) i of
        Inr com' \<Rightarrow> delete_loop i rest (st\<lparr>comp_heap := (comp_heap st)(com := com')\<rparr>)
      | Inl (KeyError k) \<Rightarrow> delete_loop i rest st
      | Inl e \<Rightarrow> (Inl e, st))"

definition cem_delitem :: "entity_ref \<Rightarrow> ('r, 't) cem \<Rightarrow> (exn + unit) \<times> ('r, 't) cem" where
  "cem_delitem e st =
     (let i = getattr_entity_id e
      in if i \<in> entities st
         then (case delete_loop i (ComponentMap_iter st) st of
                 (Inl ex, st1) \<Rightarrow> (Inl ex, st1)
               | (Inr u, st1) \<Rightarrow> (Inr (), st1\<lparr>entities := entities st1 - {i}\<rparr>))
         else (Inl (KeyError (EntityKey i)), st))"

text \<open>\<^verbatim>\<open>new_entity\<close>\<close>

definition new_entity :: "('r, 't) cem \<Rightarrow> entity \<times> ('r, 't) cem" where
  "new_entity st =
     (let st1 = st\<lparr>entity_id := entity_id st + 1\<rparr>;
          st2 = st1\<lparr>entities := insert (entity_id st1) (entities st1)\<rparr>
      in (Entity (this st2) (entity_id st2), st2))"

text \<open>
  \<^verbatim>\<open>iter_components(self, *component_names)\<close>, a generator. \<open>lookup_components\<close> is the
  list comprehension over the names, \<open>narrow\<close> the loop that intersects the identity
  sets, \<open>getitem_all\<close> the list \<^verbatim>\<open>[comp[id] for comp in components]\<close> that is yielded for
  one identity, and \<open>yield_all\<close> the final loop. The result is the list of everything the
  generator yields when it is run to its end, or the exception that ends it. The source
  narrows with \<^verbatim>\<open>entity_ids &= comp.entity_id_set\<close>; the model computes the narrowed set as
  a new value and leaves the stores as they are (whether \<^verbatim>\<open>entity_id_set\<close> hands out the
  store's own set object is a matter of the component class, which is not among the
  sources).
\<close>

fun lookup_components :: "('r, 't) cem \<Rightarrow> string list \<Rightarrow> exn + obj_id list" where
  "lookup_components st [] = Inr []"
| "lookup_components st (name # names) =
     (case ComponentMap_getitem st name of
        Inl e \<Rightarrow> Inl e
      | Inr c \<Rightarrow>
          (case lookup_components st names of
             Inl e \<Rightarrow> Inl e
           | Inr cs \<Rightarrow> Inr (c # cs)))"

definition set_intersection :: "int list \<Rightarrow> int list \<Rightarrow> int list" where
  "set_intersection a b = filter (\<lambda>i. i \<in> set b) a"

definition narrow :: "('r, 't) cem \<Rightarrow> obj_id \<Rightarrow> obj_id list \<Rightarrow> int list" where
  "narrow st first others =
     fold (\<lambda>com entity_ids. set_intersection entity_ids (entity_id_set (comp_heap st com)))
       others (entity_id_set (comp_heap st first))"

fun getitem_all :: "('r, 't) cem \<Rightarrow> obj_id list \<Rightarrow> int \<Rightarrow> exn + 'r list" where
  "getitem_all st [] i = Inr []"
| "getitem_all st (com # coms) i =
     (case component_getitem (comp_heap st com) i of
        Inl e \<Rightarrow> Inl e
      | Inr r \<Rightarrow>
          (case getitem_all st coms i of
             Inl e \<Rightarrow> Inl e
           | Inr rs \<Rightarrow> Inr (r # rs)))"

fun yield_all :: "('r, 't) cem \<Rightarrow> obj_id list \<Rightarrow> int list \<Rightarrow> exn + 'r list list" where
  "yield_all st coms [] = Inr []"
| "yield_all st coms (i # ids) =
     (case getitem_all st coms i of
        Inl e \<Rightarrow> Inl e
      | Inr y \<Rightarrow>
          (case yield_all st coms ids of
             Inl e \<Rightarrow> Inl e
           | Inr ys \<Rightarrow> Inr (y # ys)))"

definition iter_components :: "string list \<Rightarrow> ('r, 't) cem \<Rightarrow> exn + 'r list list" where
  "iter_components component_names st =
     (case lookup_components st component_names of
        Inl e \<Rightarrow> Inl e
      | Inr components \<Rightarrow>
          (case components of
             [] \<Rightarrow> Inl IndexError
           | first # others \<Rightarrow> yield_all st components (narrow st first others)))"

text \<open>The store registered under a name, for the statements about \<open>iter_components\<close>.\<close>

definition named_store :: "('r, 't) cem \<Rightarrow> string \<Rightarrow> 'r component" where
  "named_store st name = comp_heap st (the (map_of (component_map st) name))"

subsection \<open>Sequences of calls on a manager\<close>

text \<open>
  A caller's sequence of \<^verbatim>\<open>new_entity()\<close> and \<^verbatim>\<open>del manager[e]\<close> calls. A call that raises
  leaves its exception in the list of outcomes and the caller goes on with the next call.
\<close>

datatype cem_op = NewEntity | Remove entity_ref

datatype outcome = Created entity | Removed | Raised exn

fun apply_op :: "cem_op \<Rightarrow> ('r, 't) cem \<Rightarrow> outcome \<times> ('r, 't) cem" where
  "apply_op NewEntity st = (case new_entity st of (e, st1) \<Rightarrow> (Created e, st1))"
| "apply_op (Remove e) st =
     (case cem_delitem e st of
        (Inr u, st1) \<Rightarrow> (Removed, st1)
      | (Inl ex, st1) \<Rightarrow> (Raised ex, st1))"

fun apply_ops :: "cem_op list \<Rightarrow> ('r, 't) cem \<Rightarrow> outcome list \<times> ('r, 't) cem" where
  "apply_ops [] st = ([], st)"
| "apply_ops (op # ops) st =
     (case apply_op op st of
        (r, st1) \<Rightarrow> (case apply_ops ops st1 of (rs, st2) \<Rightarrow> (r # rs, st2)))"

fun issued :: "outcome list \<Rightarrow> int list" where
  "issued [] = []"
| "issued (Created (Entity m i) # rs) = i # issued rs"
| "issued (r # rs) = issued rs"

subsection \<open>The pump of the FIFE world (grease/grease_fife/world.py)\<close>

text \<open>
  Modelled from the spec: \<^verbatim>\<open>World.pump\<close> is among the sources, but the class \<^verbatim>\<open>BaseWorld\<close>, from
  which the world has \<^verbatim>\<open>self.components\<close>, \<^verbatim>\<open>self.systems\<close> and its clock, is not. Following the
  spec (``iterating the registry yields the component stores in registration order''),
  both are lists of objects here. \<open>has_step\<close> is \<^verbatim>\<open>hasattr(x, "step")\<close>; \<open>step_log\<close> is a ghost
  field with one entry for every call of a \<^verbatim>\<open>step\<close> method, oldest first.
\<close>

record 't fife_world =
  world_components :: "obj_id list"
  world_systems :: "obj_id list"
  world_time :: 't
  has_step :: "obj_id \<Rightarrow> bool"
  step_log :: "(obj_id \<times> 't) list"

text \<open>One of the two loops of \<^verbatim>\<open>pump\<close>, and \<^verbatim>\<open>pump\<close> itself.\<close>

definition step_each :: "'t \<Rightarrow> obj_id list \<Rightarrow> 't fife_world \<Rightarrow> 't fife_world" where
  "step_each dt objs fw =
     fold (\<lambda>x fw. if has_step fw x then fw\<lparr>step_log := step_log fw @ [(x, dt)]\<rparr> else fw)
       objs fw"

definition pump :: "'t \<Rightarrow> 't fife_world \<Rightarrow> 't fife_world" where
  "pump dt fw =
     (let fw1 = step_each dt (world_components fw) fw
      in step_each dt (world_systems fw1) fw1)"

subsection \<open>A small manager used to instantiate the theorems\<close>

text \<open>
  Two component stores, \<open>A\<close> over the identities 1, 2, 3 and \<open>B\<close> over 2, 3, 4 (the
  stores of the spec's intersection example), and three systems that return normally.
\<close>

definition store_A :: "string component" where
  "store_A = \<lparr>has_set_manager = True, comp_manager = None, set_manager_calls = [],
              records = [(1, ''a1''), (2, ''a2''), (3, ''a3'')]\<rparr>"

definition store_B :: "string component" where
  "store_B = \<lparr>has_set_manager = False, comp_manager = None, set_manager_calls = [],
              records = [(2, ''b2''), (3, ''b3''), (4, ''b4'')]\<rparr>"

definition quiet_system :: system where
  "quiet_system = \<lparr>sys_has_set_manager = False, sys_set_manager_calls = [], run_raises = None\<rparr>"

definition example_cem :: "(string, int) cem" where
  "example_cem =
     \<lparr>this = 0, cm_manager = 0, component_map = [(''A'', 1), (''B'', 2)],
      entities = {1, 2, 3, 4}, systems = [5, 6, 7], entity_id = 4, time = 0,
      comp_heap = (\<lambda>c. if c = 1 then store_A else store_B),
      sys_heap = (\<lambda>s. quiet_system), run_log = []\<rparr>"

section \<open>Modes and mode managers (grease/mode.py)\<close>

subsection \<open>Objects\<close>

text \<open>
  A mode object is an instance of a class derived from \<^verbatim>\<open>BaseMode\<close>, or of one derived from
  \<^verbatim>\<open>BaseMulti\<close>; \<open>cls\<close> says which, and decides which \<^verbatim>\<open>activate\<close> and \<^verbatim>\<open>deactivate\<close> a
  call on the object runs. The fields \<open>active\<close>, \<open>manager\<close>, \<open>step_rate\<close>, \<open>submodes\<close> and
  \<open>active_submode\<close> are the attributes of the same names; the last two are used by
  \<^verbatim>\<open>BaseMulti\<close> only. A reference that may be \<^verbatim>\<open>None\<close> is an \<open>option\<close>.

  No class of this file defines \<^verbatim>\<open>step_rate\<close>, yet \<^verbatim>\<open>_set_active_submode\<close> reads it from the
  submode: \<open>Unset\<close> is an object without the attribute (reading it raises
  \<^verbatim>\<open>AttributeError\<close>), \<open>IsNone\<close> the value \<^verbatim>\<open>None\<close>, \<open>Number r\<close> a rate.
\<close>

datatype mode_class = BaseMode | BaseMulti

datatype attr = Unset | IsNone | Number int

record mode_obj =
  cls :: mode_class
  active :: bool
  manager :: "obj_id option"
  step_rate :: attr
  submodes :: "obj_id list"
  active_submode :: "obj_id option"

text \<open>
  The hooks \<^verbatim>\<open>on_activate\<close>, \<^verbatim>\<open>on_deactivate\<close> and \<^verbatim>\<open>on_last_mode_pop\<close> are extension points
  with empty bodies. The model enters every call of a hook in the ghost field \<open>trace\<close>,
  oldest first, and lets the hook change nothing else.
\<close>

datatype event =
    OnActivate obj_id
  | OnDeactivate obj_id
  | OnLastModePop obj_id obj_id

text \<open>
  The world of modes: \<open>modes w mgr\<close> is the list \<^verbatim>\<open>modes\<close> of the manager object \<open>mgr\<close> (the
  mode stack, its top last; a manager class such as \<^verbatim>\<open>FifeManager\<close> makes it a list),
  \<open>heap\<close> holds the mode objects.
\<close>

record world =
  modes :: "obj_id \<Rightarrow> obj_id list"
  heap :: "obj_id \<Rightarrow> mode_obj"
  trace :: "event list"

type_synonym 'a result = "(exn + 'a) \<times> world"

definition upd :: "obj_id \<Rightarrow> (mode_obj \<Rightarrow> mode_obj) \<Rightarrow> world \<Rightarrow> world" where
  "upd self f w = w\<lparr>heap := (heap w)(self := f (heap w self))\<rparr>"

definition on_activate :: "obj_id \<Rightarrow> world \<Rightarrow> world" where
  "on_activate self w = w\<lparr>trace := trace w @ [OnActivate self]\<rparr>"

definition on_deactivate :: "obj_id \<Rightarrow> world \<Rightarrow> world" where
  "on_deactivate self w = w\<lparr>trace := trace w @ [OnDeactivate self]\<rparr>"

definition on_last_mode_pop :: "obj_id \<Rightarrow> obj_id \<Rightarrow> world \<Rightarrow> world" where
  "on_last_mode_pop mgr mode w = w\<lparr>trace := trace w @ [OnLastModePop mgr mode]\<rparr>"

subsection \<open>\<^verbatim>\<open>BaseMode\<close>\<close>

definition BaseMode_activate :: "obj_id \<Rightarrow> obj_id \<Rightarrow> world \<Rightarrow> unit result" where
  "BaseMode_activate self mode_manager w =
     (if \<not> active (heap w self)
      then (let w1 = on_activate self w;
                w2 = upd self (\<lambda>m. m\<lparr>manager := Some mode_manager\<rparr>) w1;
                w3 = upd self (\<lambda>m. m\<lparr>active := True\<rparr>) w2
            in (Inr (), w3))
      else (Inr (), w))"

definition BaseMode_deactivate :: "obj_id \<Rightarrow> obj_id \<Rightarrow> world \<Rightarrow> unit result" where
  "BaseMode_deactivate self mode_manager w =
     (let w1 = on_deactivate self w;
          w2 = upd self (\<lambda>m. m\<lparr>active := False\<rparr>) w1
      in (Inr (), w2))"

subsection \<open>\<^verbatim>\<open>BaseMulti\<close>: the methods that call no manager\<close>

text \<open>
  \<^verbatim>\<open>_set_active_submode\<close>, \<^verbatim>\<open>clear_subnode\<close>. The source's leading underscore is written
  \<open>priv_\<close>. The assignment to \<^verbatim>\<open>active_submode\<close> comes first, so it stays when reading
  \<^verbatim>\<open>submode.step_rate\<close> raises.
\<close>

definition priv_set_active_submode :: "obj_id \<Rightarrow> obj_id option \<Rightarrow> world \<Rightarrow> unit result" where
  "priv_set_active_submode self submode w =
     (let w1 = upd self (\<lambda>m. m\<lparr>active_submode := submode\<rparr>) w
      in case submode of
           None \<Rightarrow> (Inl AttributeError, w1)
         | Some sub \<Rightarrow>
             (case step_rate (heap w1 sub) of
                Unset \<Rightarrow> (Inl AttributeError, w1)
              | IsNone \<Rightarrow> (Inr (), upd self (\<lambda>m. m\<lparr>step_rate := IsNone\<rparr>) w1)
              | Number r \<Rightarrow> (Inr (), upd self (\<lambda>m. m\<lparr>step_rate := Number r\<rparr>) w1)))"

definition clear_subnode :: "obj_id \<Rightarrow> world \<Rightarrow> world" where
  "clear_subnode self w =
     (let w1 = upd self (\<lambda>m. m\<lparr>active_submode := None\<rparr>) w
      in upd self (\<lambda>m. m\<lparr>step_rate := IsNone\<rparr>) w1)"

text \<open>
  \<^verbatim>\<open>_deactivate_submode(self, clear_subnode=True)\<close>. Its first argument here is the method
  \<^verbatim>\<open>deactivate_mode\<close> of managers, taking the manager and the mode; calling it on a
  \<^verbatim>\<open>manager\<close> that is \<^verbatim>\<open>None\<close> raises \<^verbatim>\<open>AttributeError\<close>.
\<close>

definition priv_deactivate_submode ::
  "(obj_id \<Rightarrow> obj_id \<Rightarrow> world \<Rightarrow> unit result) \<Rightarrow> obj_id \<Rightarrow> bool \<Rightarrow> world \<Rightarrow> unit result" where
  "priv_deactivate_submode deactivate_mode self clear w =
     (case active_submode (heap w self) of
        None \<Rightarrow> (Inr (), w)
      | Some sub \<Rightarrow>
          (case (if active (heap w self)
                 then (case manager (heap w self) of
                         None \<Rightarrow> (Inl AttributeError, w)
                       | Some mgr \<Rightarrow> deactivate_mode mgr sub w)
                 else (Inr (), w)) of
             (Inl e, w1) \<Rightarrow> (Inl e, w1)
           | (Inr u, w1) \<Rightarrow> (Inr (), if clear then clear_subnode self w1 else w1)))"

text \<open>
  \<^verbatim>\<open>BaseMulti.activate\<close> and \<^verbatim>\<open>BaseMulti.deactivate\<close>, given the methods \<^verbatim>\<open>activate_mode\<close> and
  \<^verbatim>\<open>deactivate_mode\<close> of managers. The last step of each is the call of the superclass
  method.
\<close>

definition BaseMulti_activate ::
  "(obj_id \<Rightarrow> obj_id \<Rightarrow> world \<Rightarrow> unit result) \<Rightarrow> obj_id \<Rightarrow> obj_id \<Rightarrow> world \<Rightarrow> unit result" where
  "BaseMulti_activate activate_mode self mode_manager w =
     (if submodes (heap w self) = [] then (Inl AssertionError, w)
      else (let w1 = upd self (\<lambda>m. m\<lparr>manager := Some mode_manager\<rparr>) w
            in case (case active_submode (heap w1 self) of
                       None \<Rightarrow> priv_set_active_submode self (Some (hd (submodes (heap w1 self)))) w1
                     | Some sub \<Rightarrow> priv_set_active_submode self (Some sub) w1) of
                 (Inl e, w2) \<Rightarrow> (Inl e, w2)
               | (Inr u, w2) \<Rightarrow>
                   (case (case manager (heap w2 self) of
                            None \<Rightarrow> (Inl AttributeError, w2)
                          | Some mgr \<Rightarrow>
                              (case active_submode (heap w2 self) of
                                 None \<Rightarrow> (Inl AttributeError, w2)
                               | Some sub \<Rightarrow> activate_mode mgr sub w2)) of
                      (Inl e, w3) \<Rightarrow> (Inl e, w3)
                    | (Inr u, w3) \<Rightarrow> BaseMode_activate self mode_manager w3)))"

definition BaseMulti_deactivate ::
  "(obj_id \<Rightarrow> obj_id \<Rightarrow> world \<Rightarrow> unit result) \<Rightarrow> obj_id \<Rightarrow> obj_id \<Rightarrow> world \<Rightarrow> unit result" where
  "BaseMulti_deactivate deactivate_mode self mode_manager w =
     (case priv_deactivate_submode deactivate_mode self False w of
        (Inl e, w1) \<Rightarrow> (Inl e, w1)
      | (Inr u, w1) \<Rightarrow> BaseMode_deactivate self mode_manager w1)"

subsection \<open>Calling \<^verbatim>\<open>activate\<close> and \<^verbatim>\<open>deactivate\<close> on a mode\<close>

text \<open>
  \<^verbatim>\<open>mode.activate(manager)\<close> and \<^verbatim>\<open>mode.deactivate(manager)\<close> run the method of the object's
  class. A composite's method calls the manager, which calls the same method on the
  submode, which may be a composite again (or, in a cyclic structure, the same object).
  The first argument bounds the depth of these nested calls, as the interpreter's
  recursion limit does; when it is used up the call raises \<^verbatim>\<open>RecursionError\<close>.
  \<^verbatim>\<open>BaseManager.activate_mode(mode)\<close> is \<^verbatim>\<open>mode.activate(self)\<close>, and likewise for
  \<^verbatim>\<open>deactivate_mode\<close>.
\<close>

primrec mode_activate :: "nat \<Rightarrow> obj_id \<Rightarrow> obj_id \<Rightarrow> world \<Rightarrow> unit result" where
  "mode_activate 0 self mode_manager w = (Inl RecursionError, w)"
| "mode_activate (Suc depth) self mode_manager w =
     (case cls (heap w self) of
        BaseMode \<Rightarrow> BaseMode_activate self mode_manager w
      | BaseMulti \<Rightarrow>
          BaseMulti_activate (\<lambda>mgr mode. mode_activate depth mode mgr) self mode_manager w)"

primrec mode_deactivate :: "nat \<Rightarrow> obj_id \<Rightarrow> obj_id \<Rightarrow> world \<Rightarrow> unit result" where
  "mode_deactivate 0 self mode_manager w = (Inl RecursionError, w)"
| "mode_deactivate (Suc depth) self mode_manager w =
     (case cls (heap w self) of
        BaseMode \<Rightarrow> BaseMode_deactivate self mode_manager w
      | BaseMulti \<Rightarrow>
          BaseMulti_deactivate (\<lambda>mgr mode. mode_deactivate depth mode mgr) self mode_manager w)"

subsection \<open>\<^verbatim>\<open>BaseManager\<close>\<close>

text \<open>
  In every method below the first argument is the depth left for nested
  \<^verbatim>\<open>activate\<close>/\<^verbatim>\<open>deactivate\<close> calls and the second the manager object (\<^verbatim>\<open>self\<close>).
\<close>

definition current_mode :: "obj_id \<Rightarrow> world \<Rightarrow> obj_id option" where
  "current_mode mgr w = (case modes w mgr of [] \<Rightarrow> None | m # ms \<Rightarrow> Some (last (m # ms)))"

definition activate_mode :: "nat \<Rightarrow> obj_id \<Rightarrow> obj_id \<Rightarrow> world \<Rightarrow> unit result" where
  "activate_mode depth mgr mode w = mode_activate depth mode mgr w"

definition deactivate_mode :: "nat \<Rightarrow> obj_id \<Rightarrow> obj_id \<Rightarrow> world \<Rightarrow> unit result" where
  "deactivate_mode depth mgr mode w = mode_deactivate depth mode mgr w"


text \<open>\<^verbatim>\<open>pop_mode\<close>: \<^verbatim>\<open>self.modes.pop()\<close> raises \<^verbatim>\<open>IndexError\<close> on an empty list.\<close>

definition pop_mode :: "nat \<Rightarrow> obj_id \<Rightarrow> world \<Rightarrow> obj_id result" where
  "pop_mode depth mgr w =
     (case modes w mgr of
        [] \<Rightarrow> (Inl IndexError, w)
      | m # ms \<Rightarrow>
          (let mode = last (m # ms);
               w1 = w\<lparr>modes := (modes w)(mgr := butlast (m # ms))\<rparr>
           in case mode_deactivate depth mode mgr w1 of
                (Inl e, w2) \<Rightarrow> (Inl e, w2)
              | (Inr u, w2) \<Rightarrow>
                  (case current_mode mgr w2 of
                     Some current \<Rightarrow>
                       (case activate_mode depth mgr current w2 of
                          (Inl e, w3) \<Rightarrow> (Inl e, w3)
                        | (Inr u, w3) \<Rightarrow> (Inr mode, w3))
                   | None \<Rightarrow> (Inr mode, on_last_mode_pop mgr mode w2))))"


text \<open>
  \<^verbatim>\<open>remove_mode\<close>: \<^verbatim>\<open>self.modes.remove(mode)\<close> takes out the first occurrence; the
  \<^verbatim>\<open>ValueError\<close> of a mode that does not occur is caught and dropped.
\<close>

definition remove_mode :: "nat \<Rightarrow> obj_id \<Rightarrow> obj_id \<Rightarrow> world \<Rightarrow> unit result" where
  "remove_mode depth mgr mode w =
     (if current_mode mgr w = Some mode
      then (case pop_mode depth mgr w of
              (Inl e, w1) \<Rightarrow> (Inl e, w1)
            | (Inr popped, w1) \<Rightarrow> (Inr (), w1))
      else (if mode \<in> set (modes w mgr)
            then (Inr (), w\<lparr>modes := (modes w)(mgr := remove1 mode (modes w mgr))\<rparr>)
            else (Inr (), w)))"

subsection \<open>\<^verbatim>\<open>BaseMulti\<close>: the methods that call the manager\<close>

text \<open>
  \<^verbatim>\<open>_activate_submode(self, submode)\<close>; \<open>submode\<close> may be \<^verbatim>\<open>None\<close>. The assertion
  \<^verbatim>\<open>assert submode in self.submodes\<close> stands before everything but the first test, also
  before the branch for \<^verbatim>\<open>None\<close>, and \<^verbatim>\<open>None\<close> is not in a list of modes.
\<close>

definition priv_activate_submode :: "nat \<Rightarrow> obj_id \<Rightarrow> obj_id option \<Rightarrow> world \<Rightarrow> unit result" where
  "priv_activate_submode depth self submode w =
     (if active_submode (heap w self) = submode then (Inr (), w)
      else if (case submode of None \<Rightarrow> True | Some sub \<Rightarrow> sub \<notin> set (submodes (heap w self)))
      then (Inl AssertionError, w)
      else (case priv_deactivate_submode (deactivate_mode depth) self True w of
              (Inl e, w1) \<Rightarrow> (Inl e, w1)
            | (Inr u, w1) \<Rightarrow>
                (case priv_set_active_submode self submode w1 of
                   (Inl e, w2) \<Rightarrow> (Inl e, w2)
                 | (Inr u, w2) \<Rightarrow>
                     (case submode of
                        Some sub \<Rightarrow>
                          (if active (heap w2 self)
                           then (case manager (heap w2 self) of
                                   None \<Rightarrow> (Inl AttributeError, w2)
                                 | Some mgr \<Rightarrow> activate_mode depth mgr sub w2)
                           else (Inr (), w2))
                      | None \<Rightarrow>
                          (case manager (heap w2 self) of
                             Some mgr \<Rightarrow> remove_mode depth mgr self w2
                           | None \<Rightarrow> (Inr (), w2))))))"

text \<open>\<^verbatim>\<open>list.index\<close>: the position of the first occurrence.\<close>

fun list_index :: "obj_id \<Rightarrow> obj_id list \<Rightarrow> exn + nat" where
  "list_index x [] = Inl ValueError"
| "list_index x (y # ys) =
     (if x = y then Inr 0
      else (case list_index x ys of Inl e \<Rightarrow> Inl e | Inr i \<Rightarrow> Inr (Suc i)))"

text \<open>
  \<^verbatim>\<open>activate_next(self, loop=True)\<close>. \<open>next_mode\<close> computes the local variable of that name
  (\<^verbatim>\<open>None\<close> when the active submode is the last one and \<open>loop\<close> is false).
\<close>

definition next_mode :: "obj_id \<Rightarrow> bool \<Rightarrow> world \<Rightarrow> exn + obj_id option" where
  "next_mode self loop w =
     (case active_submode (heap w self) of
        None \<Rightarrow> Inr (Some (hd (submodes (heap w self))))
      | Some last_mode \<Rightarrow>
          (case list_index last_mode (submodes (heap w self)) of
             Inl e \<Rightarrow> Inl e
           | Inr i \<Rightarrow>
               (let index = i + 1
                in if index < length (submodes (heap w self))
                   then Inr (Some (submodes (heap w self) ! index))
                   else if loop then Inr (Some (hd (submodes (heap w self))))
                   else Inr None)))"

definition activate_next :: "nat \<Rightarrow> obj_id \<Rightarrow> bool \<Rightarrow> world \<Rightarrow> obj_id option result" where
  "activate_next depth self loop w =
     (if submodes (heap w self) = [] then (Inl AssertionError, w)
      else (case next_mode self loop w of
              Inl e \<Rightarrow> (Inl e, w)
            | Inr nxt \<Rightarrow>
                (case priv_activate_submode depth self nxt w of
                   (Inl e, w1) \<Rightarrow> (Inl e, w1)
                 | (Inr u, w1) \<Rightarrow> (Inr nxt, w1))))"

text \<open>
  \<^verbatim>\<open>remove_submode(self, mode=None)\<close>. The membership test is the \<^verbatim>\<open>elif\<close> branch: it is made
  for a mode that is passed, not for the active submode taken by default.
  \<^verbatim>\<open>self.submodes.remove(mode)\<close> raises \<^verbatim>\<open>ValueError\<close> when \<open>mode\<close> does not occur, which
  includes \<^verbatim>\<open>None\<close>.
\<close>

definition remove_submode :: "nat \<Rightarrow> obj_id \<Rightarrow> obj_id option \<Rightarrow> world \<Rightarrow> unit result" where
  "remove_submode depth self mode w =
     (if mode \<noteq> None \<and> the mode \<notin> set (submodes (heap w self)) then (Inr (), w)
      else (let mode = (if mode = None then active_submode (heap w self) else mode)
            in case activate_next depth self True w of
                 (Inl e, w1) \<Rightarrow> (Inl e, w1)
               | (Inr nxt, w1) \<Rightarrow>
                   (if (case mode of None \<Rightarrow> True | Some m \<Rightarrow> m \<notin> set (submodes (heap w1 self)))
                    then (Inl ValueError, w1)
                    else (let w2 = upd self (\<lambda>m. m\<lparr>submodes :=
                                     remove1 (the mode) (submodes (heap w1 self))\<rparr>) w1
                          in if nxt = mode
                             then (case (case manager (heap w2 self) of
                                           Some mgr \<Rightarrow> remove_mode depth mgr self w2
                                         | None \<Rightarrow> (Inr (), w2)) of
                                     (Inl e, w3) \<Rightarrow> (Inl e, w3)
                                   | (Inr u, w3) \<Rightarrow>
                                       priv_deactivate_submode (deactivate_mode depth) self True w3)
                             else (Inr (), w2)))))"

subsection \<open>Observing the hooks\<close>

text \<open>
  \<open>pop_events\<close> keeps the calls of \<^verbatim>\<open>on_last_mode_pop\<close> of a trace. \<open>quiet w w'\<close> says that
  from \<open>w\<close> to \<open>w'\<close> no mode stack has changed and \<^verbatim>\<open>on_last_mode_pop\<close> has not been called.
\<close>

definition pop_events :: "event list \<Rightarrow> event list" where
  "pop_events t = filter (\<lambda>e. case e of OnLastModePop mgr m \<Rightarrow> True | _ \<Rightarrow> False) t"

definition quiet :: "world \<Rightarrow> world \<Rightarrow> bool" where
  "quiet w w' = (modes w' = modes w \<and> pop_events (trace w') = pop_events (trace w))"


definition is_activation :: "event \<Rightarrow> bool" where
  "is_activation e = (case e of OnActivate m \<Rightarrow> True | _ \<Rightarrow> False)"

definition is_deactivation :: "event \<Rightarrow> bool" where
  "is_deactivation e = (case e of OnDeactivate m \<Rightarrow> True | _ \<Rightarrow> False)"

subsection \<open>Small worlds used to instantiate the theorems\<close>

text \<open>
  \<open>fresh_mode\<close> is a mode as \<^verbatim>\<open>BaseMode.__init__\<close> leaves it, of a class that defines a
  \<^verbatim>\<open>step_rate\<close>; \<open>fresh_multi subs\<close> is a composite as \<^verbatim>\<open>BaseMulti.__init__\<close> leaves it. In
  \<open>new_world\<close> no manager has a mode; object 10 is a fresh composite of the modes 1, 2, 3,
  object 11 a fresh composite of the mode 1, every other object a fresh mode. In
  \<open>stacked_world\<close> manager 0 holds the modes 1 and 2. In \<open>at_last_world\<close> the composite 10
  is the one mode of manager 0 and active, and its last submode 3 is the active one; in
  \<open>at_first_world\<close> its first submode 1 is; in \<open>single_world\<close> the composite 11 is the one
  mode of manager 0 and active, with its only submode 1 active.
\<close>

definition fresh_mode :: mode_obj where
  "fresh_mode = \<lparr>cls = BaseMode, active = False, manager = None, step_rate = Number 60,
                  submodes = [], active_submode = None\<rparr>"

definition fresh_multi :: "obj_id list \<Rightarrow> mode_obj" where
  "fresh_multi subs = \<lparr>cls = BaseMulti, active = False, manager = None, step_rate = Unset,
                  submodes = subs, active_submode = None\<rparr>"

definition new_world :: world where
  "new_world = \<lparr>modes = (\<lambda>mgr. []),
            heap = (\<lambda>i. if i = 10 then fresh_multi [1, 2, 3]
                        else if i = 11 then fresh_multi [1]
                        else fresh_mode),
            trace = []\<rparr>"


definition at_last_world :: world where
  "at_last_world =
     \<lparr>modes = (\<lambda>mgr. if mgr = 0 then [10] else []),
      heap = (\<lambda>i. if i = 10
                   then \<lparr>cls = BaseMulti, active = True, manager = Some 0,
                         step_rate = Number 60, submodes = [1, 2, 3],
                         active_submode = Some 3\<rparr>
                   else if i = 3 then fresh_mode\<lparr>active := True, manager := Some 0\<rparr>
                   else fresh_mode),
      trace = []\<rparr>"

definition at_first_world :: world where
  "at_first_world =
     \<lparr>modes = (\<lambda>mgr. if mgr = 0 then [10] else []),
      heap = (\<lambda>i. if i = 10
                   then \<lparr>cls = BaseMulti, active = True, manager = Some 0,
                         step_rate = Number 60, submodes = [1, 2, 3],
                         active_submode = Some 1\<rparr>
                   else if i = 1 then fresh_mode\<lparr>active := True, manager := Some 0\<rparr>
                   else fresh_mode),
      trace = []\<rparr>"

definition single_world :: world where
  "single_world =
     \<lparr>modes = (\<lambda>mgr. if mgr = 0 then [11] else []),
      heap = (\<lambda>i. if i = 11
                   then \<lparr>cls = BaseMulti, active = True, manager = Some 0,
                         step_rate = Number 60, submodes = [1],
                         active_submode = Some 1\<rparr>
                   else if i = 1 then fresh_mode\<lparr>active := True, manager := Some 0\<rparr>
                   else fresh_mode),
      trace = []\<rparr>"



subsection \<open>What nested calls of \<^verbatim>\<open>deactivate\<close> and \<^verbatim>\<open>activate\<close> preserve\<close>

text \<open>
  The two relations below are not code: they say what every call of \<^verbatim>\<open>mode.deactivate\<close> and
  of \<^verbatim>\<open>mode.activate\<close> preserves, whatever the classes of the modes and however deep the
  composites are nested. From \<open>w\<close> to \<open>w'\<close>, a deactivation changes no stack and no attribute
  but \<open>active\<close>, sets no flag, calls no hook other than \<^verbatim>\<open>on_deactivate\<close>, leaves every mode
  whose hook it called inactive and called the hook of every mode whose flag it cleared.
  An activation for the manager \<open>mgr\<close> changes no stack, class or list of submodes, clears
  no flag, binds a mode to no manager other than \<open>mgr\<close>, calls no hook other than
  \<^verbatim>\<open>on_activate\<close>, and calls it exactly once for every mode whose flag it sets and not at
  all for any other mode; on a mode of class \<^verbatim>\<open>BaseMode\<close> it changes nothing but the manager
  and the flag, and only when it sets the flag.
\<close>

definition deactivation_step :: "world \<Rightarrow> world \<Rightarrow> bool" where
  "deactivation_step w w' =
     (modes w' = modes w \<and>
      (\<forall>m. heap w' m = (heap w m)\<lparr>active := active (heap w' m)\<rparr> \<and>
           (active (heap w' m) \<longrightarrow> active (heap w m))) \<and>
      (\<exists>t. trace w' = trace w @ t \<and> list_all is_deactivation t \<and>
         (\<forall>m. (OnDeactivate m \<in> set t \<longrightarrow> \<not> active (heap w' m)) \<and>
              (active (heap w m) \<and> \<not> active (heap w' m) \<longrightarrow> OnDeactivate m \<in> set t))))"

definition activation_step :: "obj_id \<Rightarrow> world \<Rightarrow> world \<Rightarrow> bool" where
  "activation_step mgr w w' =
     (modes w' = modes w \<and>
      (\<forall>m. cls (heap w' m) = cls (heap w m) \<and>
           submodes (heap w' m) = submodes (heap w m) \<and>
           (active (heap w m) \<longrightarrow> active (heap w' m)) \<and>
           (manager (heap w' m) = manager (heap w m) \<or> manager (heap w' m) = Some mgr) \<and>
           (\<not> active (heap w m) \<and> active (heap w' m) \<longrightarrow> manager (heap w' m) = Some mgr) \<and>
           (cls (heap w m) = BaseMode \<longrightarrow>
              heap w' m =
                (if \<not> active (heap w m) \<and> active (heap w' m)
                 then (heap w m)\<lparr>manager := Some mgr, active := True\<rparr>
                 else heap w m))) \<and>
      (\<exists>t. trace w' = trace w @ t \<and> list_all is_activation t \<and>
         (\<forall>m. count_list t (OnActivate m) =
               (if \<not> active (heap w m) \<and> active (heap w' m) then 1 else 0))))"

section \<open>Theorems about the component entity manager\<close>

subsection \<open>Removing an entity\<close>

lemma delete_loop_result:
  "delete_loop i cs st =
     (Inr (), st\<lparr>comp_heap := (\<lambda>c. if c \<in> set cs
        then (comp_heap st c)\<lparr>records := AList.delete i (records (comp_heap st c))\<rparr>
        else comp_heap st c)\<rparr>)"
proof (induction cs arbitrary: st)
  case Nil
  then show ?case by simp
next
  case (Cons c cs)
  show ?case
  proof (cases "component_contains (comp_heap st c) i")
    case True
    then show ?thesis
      by (simp add: Cons.IH component_delitem_def fun_eq_iff AList.delete_idem)
  next
    case False
    then have "AList.delete i (records (comp_heap st c)) = records (comp_heap st c)"
      by (simp add: component_contains_def AList.delete_id)
    with False show ?thesis
      by (auto simp add: Cons.IH component_delitem_def fun_eq_iff)
  qed
qed

text \<open>
  Claim C1. For an entity that is live, \<^verbatim>\<open>del manager[entity]\<close> returns normally; afterwards
  the identity is no longer live, no store registered in the component map has a record
  for it, the component map itself, the records of every other identity and the stores
  that are not registered are as before. For an identity that is not live the call raises
  \<^verbatim>\<open>KeyError\<close> (the spec's \<open>NotFoundError\<close>) with that identity and the state is exactly
  the state before the call.
\<close>

theorem cem_delitem_cascades:
  "(getattr_entity_id e \<in> entities st \<longrightarrow>
      (\<exists>st'. cem_delitem e st = (Inr (), st') \<and>
         entities st' = entities st - {getattr_entity_id e} \<and>
         \<not> cem_contains st' e \<and>
         (\<forall>c \<in> set (ComponentMap_iter st').
            \<not> component_contains (comp_heap st' c) (getattr_entity_id e)) \<and>
         component_map st' = component_map st \<and>
         (\<forall>c j. j \<noteq> getattr_entity_id e \<longrightarrow>
            map_of (records (comp_heap st' c)) j = map_of (records (comp_heap st c)) j) \<and>
         (\<forall>c. c \<notin> set (ComponentMap_iter st) \<longrightarrow> comp_heap st' c = comp_heap st c))) \<and>
   (getattr_entity_id e \<notin> entities st \<longrightarrow>
      cem_delitem e st = (Inl (KeyError (EntityKey (getattr_entity_id e))), st))"
  by (auto simp add: cem_delitem_def delete_loop_result cem_contains_def ComponentMap_iter_def
      component_contains_def AList.delete_notin_dom Let_def)

theorem cem_delitem_cascades_witness:
  "2 \<in> entities example_cem \<and> 
   (\<exists>st'. cem_delitem (ById 2) example_cem = (Inr (), st') \<and>
      entities st' = {1, 3, 4} \<and>
      \<not> component_contains (comp_heap st' 1) 2 \<and>
      \<not> component_contains (comp_heap st' 2) 2) \<and>
   9 \<notin> entities example_cem \<and>
   cem_delitem (ById 9) example_cem = (Inl (KeyError (EntityKey 9)), example_cem)"
  using cem_delitem_cascades [of "ById 2" example_cem]
    cem_delitem_cascades [of "ById 9" example_cem]
  by (auto simp add: example_cem_def ComponentMap_iter_def)

subsection \<open>Entity identities\<close>

lemma apply_op_invariant:
  assumes "entities st \<subseteq> {1..entity_id st}" and "0 \<le> entity_id st"
  shows "entities (snd (apply_op op st)) \<subseteq> {1..entity_id (snd (apply_op op st))} \<and>
         this (snd (apply_op op st)) = this st \<and>
         (case op of
            NewEntity \<Rightarrow>
              fst (apply_op op st) = Created (Entity (this st) (entity_id st + 1)) \<and>
              entity_id (snd (apply_op op st)) = entity_id st + 1
          | Remove e \<Rightarrow>
              issued [fst (apply_op op st)] = [] \<and>
              entity_id (snd (apply_op op st)) = entity_id st)"
proof (cases op)
  case NewEntity
  with assms show ?thesis by (auto simp add: new_entity_def Let_def)
next
  case (Remove e)
  with assms show ?thesis
    by (auto simp add: cem_delitem_def delete_loop_result Let_def)
qed

lemma issued_Cons:
  "issued (r # rs) = issued [r] @ issued rs"
  by (induction "r # rs" rule: issued.induct) auto

lemma shifted_upt:
  "map (\<lambda>k. a + int k) [Suc 0..<Suc (Suc n)] =
     (a + 1) # map (\<lambda>k. a + 1 + int k) [Suc 0..<Suc n]"
proof -
  have "[Suc 0..<Suc (Suc n)] = Suc 0 # map Suc [Suc 0..<Suc n]"
    by (simp add: upt_conv_Cons map_Suc_upt del: upt_Suc)
  then show ?thesis
    by (simp add: comp_def add.assoc del: upt_Suc)
qed

lemma apply_ops_issued:
  assumes "entities st \<subseteq> {1..entity_id st}" and "0 \<le> entity_id st"
  shows "issued (fst (apply_ops ops st)) =
           map (\<lambda>k. entity_id st + int k) [Suc 0..<Suc (count_list ops NewEntity)] \<and>
         entity_id (snd (apply_ops ops st)) = entity_id st + int (count_list ops NewEntity) \<and>
         entities (snd (apply_ops ops st)) \<subseteq> {1..entity_id (snd (apply_ops ops st))} \<and>
         this (snd (apply_ops ops st)) = this st"
  using assms
proof (induction ops arbitrary: st)
  case Nil
  then show ?case by simp
next
  case (Cons op ops)
  let ?st1 = "snd (apply_op op st)"
  note step = apply_op_invariant [OF Cons.prems, of op]
  have inv: "entities ?st1 \<subseteq> {1..entity_id ?st1}" and th: "this ?st1 = this st"
    using step by simp_all
  have split: "apply_ops (op # ops) st =
      (fst (apply_op op st) # fst (apply_ops ops ?st1), snd (apply_ops ops ?st1))"
    by (simp add: split_beta)
  show ?case
  proof (cases op)
    case NewEntity
    then have r: "fst (apply_op op st) = Created (Entity (this st) (entity_id st + 1))"
      and c: "entity_id ?st1 = entity_id st + 1"
      using step by simp_all
    have pos: "0 \<le> entity_id ?st1" using c Cons.prems by simp
    note IH = Cons.IH [OF inv pos]
    have n: "count_list (op # ops) NewEntity = Suc (count_list ops NewEntity)"
      using NewEntity by simp
    have i: "issued (fst (apply_ops (op # ops) st)) =
        (entity_id st + 1) # issued (fst (apply_ops ops ?st1))"
      unfolding split by (simp add: r)
    have s: "snd (apply_ops (op # ops) st) = snd (apply_ops ops ?st1)"
      unfolding split by simp
    have "issued (fst (apply_ops (op # ops) st)) =
        map (\<lambda>k. entity_id st + int k) [Suc 0..<Suc (count_list (op # ops) NewEntity)]"
      unfolding n i shifted_upt using IH [THEN conjunct1] unfolding c by simp
    moreover have "entity_id (snd (apply_ops (op # ops) st)) =
        entity_id st + int (count_list (op # ops) NewEntity)"
      unfolding n s using IH [THEN conjunct2, THEN conjunct1] unfolding c by simp
    moreover have "entities (snd (apply_ops (op # ops) st))
        \<subseteq> {1..entity_id (snd (apply_ops (op # ops) st))}"
      unfolding s using IH [THEN conjunct2, THEN conjunct2, THEN conjunct1] .
    moreover have "this (snd (apply_ops (op # ops) st)) = this st"
      unfolding s using IH [THEN conjunct2, THEN conjunct2, THEN conjunct2] th by simp
    ultimately show ?thesis by blast
  next
    case (Remove e)
    then have r: "issued [fst (apply_op op st)] = []"
      and c: "entity_id ?st1 = entity_id st"
      using step by simp_all
    have pos: "0 \<le> entity_id ?st1" using c Cons.prems by simp
    note IH = Cons.IH [OF inv pos]
    have n: "count_list (op # ops) NewEntity = count_list ops NewEntity"
      using Remove by simp
    have i: "issued (fst (apply_ops (op # ops) st)) = issued (fst (apply_ops ops ?st1))"
      unfolding split using issued_Cons [of "fst (apply_op op st)"] r by simp
    have s: "snd (apply_ops (op # ops) st) = snd (apply_ops ops ?st1)"
      unfolding split by simp
    have "issued (fst (apply_ops (op # ops) st)) =
        map (\<lambda>k. entity_id st + int k) [Suc 0..<Suc (count_list (op # ops) NewEntity)]"
      unfolding n i using IH [THEN conjunct1] unfolding c .
    moreover have "entity_id (snd (apply_ops (op # ops) st)) =
        entity_id st + int (count_list (op # ops) NewEntity)"
      unfolding n s using IH [THEN conjunct2, THEN conjunct1] unfolding c .
    moreover have "entities (snd (apply_ops (op # ops) st))
        \<subseteq> {1..entity_id (snd (apply_ops (op # ops) st))}"
      unfolding s using IH [THEN conjunct2, THEN conjunct2, THEN conjunct1] .
    moreover have "this (snd (apply_ops (op # ops) st)) = this st"
      unfolding s using IH [THEN conjunct2, THEN conjunct2, THEN conjunct2] th by simp
    ultimately show ?thesis by blast
  qed
qed

lemma fold_bind_system_frame:
  "this (fold bind_system sys st) = this st \<and>
   entities (fold bind_system sys st) = entities st \<and>
   entity_id (fold bind_system sys st) = entity_id st"
  by (induction sys arbitrary: st) (simp_all add: bind_system_def)

lemma ComponentMap_setitem_frame:
  "this (ComponentMap_setitem name com st) = this st \<and>
   cm_manager (ComponentMap_setitem name com st) = cm_manager st \<and>
   entities (ComponentMap_setitem name com st) = entities st \<and>
   entity_id (ComponentMap_setitem name com st) = entity_id st"
  by (simp add: ComponentMap_setitem_def Let_def)

lemma fold_setitem_frame:
  "this (fold (\<lambda>(name, com). ComponentMap_setitem name com) components st) = this st \<and>
   cm_manager (fold (\<lambda>(name, com). ComponentMap_setitem name com) components st) = cm_manager st"
  by (induction components arbitrary: st) (simp_all add: ComponentMap_setitem_frame split_beta)

lemma cem_init_fields:
  "entities (cem_init self sys components ch sh) = {} \<and>
   entity_id (cem_init self sys components ch sh) = 0 \<and>
   this (cem_init self sys components ch sh) = self"
  by (simp add: cem_init_def Let_def fold_bind_system_frame fold_setitem_frame
      ComponentMap_init_def)

text \<open>
  Claim C2. Take a manager as its constructor leaves it and any sequence of
  \<^verbatim>\<open>new_entity\<close> and removal calls (removals of identities that are not live raise and
  change nothing). The identities returned by the \<^verbatim>\<open>new_entity\<close> calls are, in order,
  1, 2, ..., n: strictly increasing from 1 and pairwise different, also across removals.
  Every live identity is one of them, and the identity the next \<^verbatim>\<open>new_entity\<close> would
  return is neither live nor issued before.
\<close>

theorem new_entity_ids_never_reused:
  "case apply_ops ops (cem_init self sys components ch sh) of
     (rs, st) \<Rightarrow>
       issued rs = map int [1..<Suc (count_list ops NewEntity)] \<and>
       sorted_wrt (<) (issued rs) \<and>
       distinct (issued rs) \<and>
       entities st \<subseteq> set (issued rs) \<and>
       fst (new_entity st) = Entity self (int (count_list ops NewEntity) + 1) \<and>
       int (count_list ops NewEntity) + 1 \<notin> entities st \<and>
       int (count_list ops NewEntity) + 1 \<notin> set (issued rs)"
proof -
  let ?st0 = "cem_init self sys components ch sh :: ('a, 'b) cem"
  let ?n = "count_list ops NewEntity"
  have init: "entities ?st0 = {}" "entity_id ?st0 = 0" "this ?st0 = self"
    using cem_init_fields by blast+
  have "entities ?st0 \<subseteq> {1..entity_id ?st0}" "0 \<le> entity_id ?st0"
    by (simp_all add: init)
  note all = apply_ops_issued [OF this, of ops, unfolded init]
  have iss: "issued (fst (apply_ops ops ?st0)) = map int [Suc 0..<Suc ?n]"
    using all [THEN conjunct1] by (simp del: upt_Suc)
  have cnt: "entity_id (snd (apply_ops ops ?st0)) = int ?n"
    using all [THEN conjunct2, THEN conjunct1] by simp
  have sub: "entities (snd (apply_ops ops ?st0)) \<subseteq> {1..int ?n}"
    using all [THEN conjunct2, THEN conjunct2, THEN conjunct1] unfolding cnt .
  have th: "this (snd (apply_ops ops ?st0)) = self"
    using all [THEN conjunct2, THEN conjunct2, THEN conjunct2] .
  have set_iss: "set (map int [Suc 0..<Suc ?n]) = {1..int ?n}"
    by (simp add: atLeastLessThanSuc_atLeastAtMost image_int_atLeastAtMost del: upt_Suc)
  have srt: "sorted_wrt (<) (map int [Suc 0..<Suc ?n])"
    by (simp add: sorted_wrt_map del: upt_Suc)
  have dst: "distinct (map int [Suc 0..<Suc ?n])"
    by (simp add: distinct_map del: upt_Suc)
  have nxt: "fst (new_entity (snd (apply_ops ops ?st0))) = Entity self (int ?n + 1)"
    by (simp add: new_entity_def Let_def cnt th)
  have fresh: "int ?n + 1 \<notin> entities (snd (apply_ops ops ?st0))"
    using sub by auto
  show ?thesis
    unfolding split_beta iss set_iss using sub srt dst nxt fresh by (simp del: upt_Suc)
qed

subsection \<open>The intersection query\<close>

lemma lookup_components_found:
  "set names \<subseteq> fst ` set (component_map st) \<Longrightarrow>
   lookup_components st names = Inr (map (\<lambda>n. the (map_of (component_map st) n)) names)"
proof (induction names)
  case Nil
  then show ?case by simp
next
  case (Cons n names)
  then have "map_of (component_map st) n \<noteq> None"
    by (simp add: map_of_eq_None_iff)
  then obtain c where "map_of (component_map st) n = Some c"
    by blast
  with Cons show ?case by (simp add: ComponentMap_getitem_def)
qed

lemma lookup_components_missing:
  "\<not> set names \<subseteq> fst ` set (component_map st) \<Longrightarrow>
   \<exists>n \<in> set names. lookup_components st names = Inl (KeyError (NameKey n))"
proof (induction names)
  case Nil
  then show ?case by simp
next
  case (Cons n names)
  show ?case
  proof (cases "map_of (component_map st) n")
    case None
    then show ?thesis by (simp add: ComponentMap_getitem_def)
  next
    case (Some c)
    then have "n \<in> fst ` set (component_map st)"
      by (metis map_of_eq_None_iff option.distinct(1))
    with Cons.prems have "\<not> set names \<subseteq> fst ` set (component_map st)"
      by simp
    from Cons.IH [OF this] obtain m where "m \<in> set names"
      and "lookup_components st names = Inl (KeyError (NameKey m))"
      by blast
    with Some show ?thesis by (auto simp add: ComponentMap_getitem_def)
  qed
qed

lemma set_entity_id_set:
  "set (entity_id_set com) = {i. component_contains com i}"
  by (auto simp add: entity_id_set_def component_contains_def)

lemma narrow_fold:
  "set (fold (\<lambda>com entity_ids. set_intersection entity_ids (entity_id_set (comp_heap st com)))
          others ids) =
     set ids \<inter> (\<Inter>c \<in> set others. {i. component_contains (comp_heap st c) i}) \<and>
   (distinct ids \<longrightarrow>
     distinct (fold (\<lambda>com entity_ids. set_intersection entity_ids (entity_id_set (comp_heap st com)))
          others ids))"
  by (induction others arbitrary: ids) (auto simp add: set_intersection_def set_entity_id_set)

lemma narrow_set:
  "set (narrow st first others) =
     (\<Inter>c \<in> set (first # others). {i. component_contains (comp_heap st c) i})"
  "distinct (narrow st first others)"
proof -
  have d: "distinct (entity_id_set (comp_heap st first))"
    by (simp add: entity_id_set_def)
  note f = narrow_fold [of st others "entity_id_set (comp_heap st first)"]
  show "set (narrow st first others) =
     (\<Inter>c \<in> set (first # others). {i. component_contains (comp_heap st c) i})"
    using f [THEN conjunct1] by (simp add: narrow_def set_entity_id_set)
  show "distinct (narrow st first others)"
    using f [THEN conjunct2] d by (simp add: narrow_def)
qed

lemma getitem_all_found:
  "\<forall>c \<in> set coms. component_contains (comp_heap st c) i \<Longrightarrow>
   getitem_all st coms i = Inr (map (\<lambda>c. the (map_of (records (comp_heap st c)) i)) coms)"
proof (induction coms)
  case Nil
  then show ?case by simp
next
  case (Cons c coms)
  then have "map_of (records (comp_heap st c)) i \<noteq> None"
    by (simp add: component_contains_def map_of_eq_None_iff)
  then obtain r where "map_of (records (comp_heap st c)) i = Some r"
    by blast
  with Cons show ?case by (simp add: component_getitem_def)
qed

lemma yield_all_found:
  "\<forall>i \<in> set ids. \<forall>c \<in> set coms. component_contains (comp_heap st c) i \<Longrightarrow>
   yield_all st coms ids =
     Inr (map (\<lambda>i. map (\<lambda>c. the (map_of (records (comp_heap st c)) i)) coms) ids)"
  by (induction ids) (simp_all add: getitem_all_found)

lemma iter_components_no_names: "iter_components [] st = Inl IndexError"
  by (simp add: iter_components_def)

text \<open>
  Claim C3. For a non-empty list of names that are all registered, the query runs to its
  end without an exception. It visits each identity of the intersection of the named
  stores' key sets exactly once and no other identity, and what it yields for an identity
  is the list of that identity's records in the named stores, in the order of the names.
\<close>

theorem iter_components_intersection:
  assumes "component_names \<noteq> []"
    and "set component_names \<subseteq> fst ` set (component_map st)"
  shows "\<exists>ids. distinct ids \<and>
           set ids = (\<Inter>name \<in> set component_names.
                        {i. component_contains (named_store st name) i}) \<and>
           iter_components component_names st =
             Inr (map (\<lambda>i. map (\<lambda>name. the (map_of (records (named_store st name)) i))
                              component_names) ids)"
proof -
  let ?coms = "map (\<lambda>n. the (map_of (component_map st) n)) component_names"
  let ?ids = "narrow st (hd ?coms) (tl ?coms)"
  have ne: "hd ?coms # tl ?coms = ?coms"
    using assms(1) by simp
  have look: "lookup_components st component_names = Inr ?coms"
    using assms(2) by (rule lookup_components_found)
  have it: "iter_components component_names st = yield_all st ?coms ?ids"
    unfolding iter_components_def look using assms(1) by (cases component_names) simp_all
  have ids: "set ?ids = (\<Inter>c \<in> set ?coms. {i. component_contains (comp_heap st c) i})"
    using narrow_set(1) [of st "hd ?coms" "tl ?coms"] unfolding ne .
  then have "\<forall>i \<in> set ?ids. \<forall>c \<in> set ?coms. component_contains (comp_heap st c) i"
    by blast
  then have "yield_all st ?coms ?ids =
      Inr (map (\<lambda>i. map (\<lambda>c. the (map_of (records (comp_heap st c)) i)) ?coms) ?ids)"
    by (rule yield_all_found)
  then have "iter_components component_names st =
      Inr (map (\<lambda>i. map (\<lambda>name. the (map_of (records (named_store st name)) i))
                       component_names) ?ids)"
    unfolding it by (simp add: named_store_def comp_def)
  moreover have "set ?ids = (\<Inter>name \<in> set component_names.
                        {i. component_contains (named_store st name) i})"
    unfolding ids by (simp add: named_store_def)
  moreover have "distinct ?ids" by (rule narrow_set)
  ultimately show ?thesis by blast
qed

theorem iter_components_intersection_witness:
  "[''A'', ''B''] \<noteq> [] \<and> set [''A'', ''B''] \<subseteq> fst ` set (component_map example_cem) \<and>
   iter_components [''A'', ''B''] example_cem = Inr [[''a2'', ''b2''], [''a3'', ''b3'']] \<and>
   (\<exists>ids. distinct ids \<and> set ids = {2, 3} \<and>
      iter_components [''A'', ''B''] example_cem =
        Inr (map (\<lambda>i. map (\<lambda>name. the (map_of (records (named_store example_cem name)) i))
                              [''A'', ''B'']) ids))"
proof -
  have a: "[''A'', ''B''] \<noteq> []" by simp
  have b: "set [''A'', ''B''] \<subseteq> fst ` set (component_map example_cem)"
    by (simp add: example_cem_def)
  have c: "(\<Inter>name \<in> set [''A'', ''B''].
              {i. component_contains (named_store example_cem name) i}) = {2, 3}"
    by (auto simp add: named_store_def example_cem_def component_contains_def
        store_A_def store_B_def)
  have d: "iter_components [''A'', ''B''] example_cem = Inr [[''a2'', ''b2''], [''a3'', ''b3'']]"
    by (simp add: iter_components_def ComponentMap_getitem_def example_cem_def narrow_def
        entity_id_set_def set_intersection_def store_A_def store_B_def component_getitem_def)
  show ?thesis
    using iter_components_intersection [OF a b] a b d unfolding c by simp
qed

subsection \<open>The time step\<close>

lemma run_loop_all_return:
  "\<forall>sy \<in> set sys. run_raises (sys_heap st sy) = None \<Longrightarrow>
   run_loop dt sys st =
     (Inr (), st\<lparr>run_log := run_log st @ map (\<lambda>sy. (sy, dt, time st)) sys\<rparr>)"
  by (induction sys arbitrary: st) simp_all

lemma run_loop_raises:
  "\<forall>sy \<in> set before. run_raises (sys_heap st sy) = None \<Longrightarrow>
   run_raises (sys_heap st bad) = Some e \<Longrightarrow>
   run_loop dt (before @ bad # after) st =
     (Inl e, st\<lparr>run_log := run_log st @ map (\<lambda>sy. (sy, dt, time st)) (before @ [bad])\<rparr>)"
  by (induction before arbitrary: st) simp_all

text \<open>
  Claim C8. When no system's \<^verbatim>\<open>run\<close> raises, \<^verbatim>\<open>manager.run(dt)\<close> returns normally, the
  clock has advanced by \<open>dt\<close>, and the calls it made are exactly one call of \<^verbatim>\<open>run(dt)\<close> per
  system of \<^verbatim>\<open>manager.systems\<close>, in the order of that tuple, each with the same \<open>dt\<close> and
  each made when the clock had already advanced.
\<close>

theorem run_invokes_systems_in_order:
  assumes "\<forall>sy \<in> set (systems st). run_raises (sys_heap st sy) = None"
  shows "run dt st =
           (Inr (), st\<lparr>time := time st + dt,
                        run_log := run_log st @
                          map (\<lambda>sy. (sy, dt, time st + dt)) (systems st)\<rparr>)"
  using assms by (simp add: run_def Let_def run_loop_all_return)

theorem run_invokes_systems_in_order_witness:
  "map (\<lambda>sy. run_raises (sys_heap example_cem sy)) (systems example_cem) = [None, None, None] \<and>
   fst (run 3 example_cem) = Inr () \<and>
   time (snd (run 3 example_cem)) = 3 \<and>
   run_log (snd (run 3 example_cem)) = [(5, 3, 3), (6, 3, 3), (7, 3, 3)]"
proof -
  have h: "\<forall>sy \<in> set (systems example_cem). run_raises (sys_heap example_cem sy) = None"
    by (simp add: example_cem_def quiet_system_def)
  show ?thesis
    using run_invokes_systems_in_order [OF h, of 3]
    by (simp add: example_cem_def quiet_system_def)
qed

text \<open>
  \<^verbatim>\<open>World.pump\<close> is not this time step: it steps the components before the systems, skips
  an object without a \<^verbatim>\<open>step\<close> method, and does not touch the clock.
\<close>

lemma step_each_result:
  "step_each dt objs fw =
     fw\<lparr>step_log := step_log fw @ map (\<lambda>x. (x, dt)) (filter (has_step fw) objs)\<rparr>"
  unfolding step_each_def by (induction objs arbitrary: fw) simp_all

lemma pump_result:
  "pump dt fw =
     fw\<lparr>step_log := step_log fw @
          map (\<lambda>x. (x, dt)) (filter (has_step fw) (world_components fw)) @
          map (\<lambda>x. (x, dt)) (filter (has_step fw) (world_systems fw))\<rparr>"
  by (simp add: pump_def step_each_result Let_def)

lemma pump_keeps_time: "world_time (pump dt fw) = world_time fw"
  by (simp add: pump_result)

subsection \<open>Registering component stores\<close>

lemma setitem_heap:
  "comp_heap (ComponentMap_setitem name com st) =
     (if has_set_manager (comp_heap st com)
      then (comp_heap st)(com := component_set_manager (comp_heap st com) (cm_manager st))
      else comp_heap st)"
  by (simp add: ComponentMap_setitem_def Let_def)

lemma setitem_has_set_manager:
  "has_set_manager (comp_heap (ComponentMap_setitem name com st) c) =
     has_set_manager (comp_heap st c)"
  by (simp add: setitem_heap component_set_manager_def)

lemma setitem_calls:
  "set_manager_calls (comp_heap (ComponentMap_setitem name com st) c) =
     set_manager_calls (comp_heap st c) @
       (if c = com \<and> has_set_manager (comp_heap st c) then [cm_manager st] else [])"
  by (simp add: setitem_heap component_set_manager_def)

lemma setitem_map:
  "map_of (component_map (ComponentMap_setitem name com st)) =
     (map_of (component_map st))(name \<mapsto> com)"
  by (simp add: ComponentMap_setitem_def Let_def AList.update_conv')

lemma setitem_cm_manager:
  "cm_manager (ComponentMap_setitem name com st) = cm_manager st"
  by (simp add: ComponentMap_setitem_def Let_def)

lemma fold_setitem:
  "map_of (component_map (fold (\<lambda>(name, com). ComponentMap_setitem name com) components st)) =
     map_of (component_map st) ++ map_of (rev components) \<and>
   cm_manager (fold (\<lambda>(name, com). ComponentMap_setitem name com) components st) =
     cm_manager st \<and>
   (\<forall>c. has_set_manager
          (comp_heap (fold (\<lambda>(name, com). ComponentMap_setitem name com) components st) c) =
        has_set_manager (comp_heap st c)) \<and>
   (\<forall>c. set_manager_calls
          (comp_heap (fold (\<lambda>(name, com). ComponentMap_setitem name com) components st) c) =
        set_manager_calls (comp_heap st c) @
          (if has_set_manager (comp_heap st c)
           then replicate (count_list (map snd components) c) (cm_manager st) else []))"
proof (induction components arbitrary: st)
  case Nil
  then show ?case by simp
next
  case (Cons p components)
  obtain name com where p: "p = (name, com)" by (cases p)
  show ?case
    unfolding p
    by (simp add: Cons.IH setitem_map setitem_cm_manager setitem_has_set_manager setitem_calls
        replicate_app_Cons_same map_add_def fun_eq_iff split: option.splits)
qed

lemma fold_bind_system_comp:
  "comp_heap (fold bind_system sys st) = comp_heap st \<and>
   component_map (fold bind_system sys st) = component_map st \<and>
   cm_manager (fold bind_system sys st) = cm_manager st"
  by (induction sys arbitrary: st) (simp_all add: bind_system_def)

text \<open>
  Claim C10. \<^verbatim>\<open>components[name] = store\<close> never raises: afterwards the name is bound to the
  given store whatever it was bound to before, and the other names are bound as before. If
  the store has a \<^verbatim>\<open>set_manager\<close> method, it has been called once more, with the component
  map's manager, and no other store is touched; if it has none, no store is touched. The
  constructor of the manager registers its keyword arguments the same way: the component
  map's manager is the manager under construction, every name is bound to its store, and
  every store with a \<^verbatim>\<open>set_manager\<close> method has received one call with that manager for
  each name it was passed under.
\<close>

theorem registration_replaces_and_binds:
  "map_of (component_map (ComponentMap_setitem name com st)) =
     (map_of (component_map st))(name \<mapsto> com) \<and>
   ComponentMap_getitem (ComponentMap_setitem name com st) name = Inr com \<and>
   comp_heap (ComponentMap_setitem name com st) =
     (if has_set_manager (comp_heap st com)
      then (comp_heap st)(com := component_set_manager (comp_heap st com) (cm_manager st))
      else comp_heap st) \<and>
   set_manager_calls (comp_heap (ComponentMap_setitem name com st) com) =
     set_manager_calls (comp_heap st com) @
       (if has_set_manager (comp_heap st com) then [cm_manager st] else []) \<and>
   (let st0 = cem_init self sys components ch sh
    in cm_manager st0 = self \<and>
       map_of (component_map st0) = map_of (rev components) \<and>
       (\<forall>c. set_manager_calls (comp_heap st0 c) =
          set_manager_calls (ch c) @
            (if has_set_manager (ch c)
             then replicate (count_list (map snd components) c) self else [])))"
proof -
  have "ComponentMap_getitem (ComponentMap_setitem name com st) name = Inr com"
    by (simp add: ComponentMap_getitem_def setitem_map)
  moreover have "let st0 = cem_init self sys components ch sh
    in cm_manager st0 = self \<and>
       map_of (component_map st0) = map_of (rev components) \<and>
       (\<forall>c. set_manager_calls (comp_heap st0 c) =
          set_manager_calls (ch c) @
            (if has_set_manager (ch c)
             then replicate (count_list (map snd components) c) self else []))"
    by (simp add: cem_init_def Let_def ComponentMap_init_def fold_bind_system_comp fold_setitem)
  ultimately show ?thesis
    using setitem_map [of name com st] setitem_heap [of name com st]
      setitem_calls [of name com st com]
    by simp
qed

section \<open>Theorems about modes and mode managers\<close>

subsection \<open>What activation and deactivation leave alone\<close>

lemma quiet_refl [simp]: "quiet w w"
  by (simp add: quiet_def)

lemma quiet_trans: "quiet w w1 \<Longrightarrow> quiet w1 w2 \<Longrightarrow> quiet w w2"
  by (simp add: quiet_def)

lemma quiet_upd [simp]: "quiet w (upd self f w)"
  by (simp add: quiet_def upd_def)

lemma quiet_upd_iff [simp]: "quiet w (upd self f w') = quiet w w'"
  by (simp add: quiet_def upd_def)

lemma quiet_hooks [simp]:
  "quiet w (on_activate self w')= quiet w w'"
  "quiet w (on_deactivate self w') = quiet w w'"
  by (simp_all add: quiet_def on_activate_def on_deactivate_def pop_events_def)

lemma quiet_BaseMode_activate: "quiet w (snd (BaseMode_activate self mgr w))"
  by (simp add: BaseMode_activate_def Let_def)


lemma quiet_set_active_submode: "quiet w (snd (priv_set_active_submode self sub w))"
  by (simp add: priv_set_active_submode_def Let_def split: option.splits attr.splits)

lemma quiet_clear_subnode [simp]: "quiet w (clear_subnode self w') = quiet w w'"
  by (simp add: clear_subnode_def Let_def)




lemma quiet_BaseMulti_activate:
  assumes "\<And>mgr m w. quiet w (snd (act mgr m w))"
  shows "quiet w (snd (BaseMulti_activate act self mm w))"
proof (cases "submodes (heap w self) = []")
  case True
  then show ?thesis by (simp add: BaseMulti_activate_def)
next
  case False
  let ?w1 = "upd self (\<lambda>m. m\<lparr>manager := Some mm\<rparr>) w"
  let ?set = "case active_submode (heap ?w1 self) of
                None \<Rightarrow> priv_set_active_submode self (Some (hd (submodes (heap ?w1 self)))) ?w1
              | Some sub \<Rightarrow> priv_set_active_submode self (Some sub) ?w1"
  obtain r w2 where s: "?set = (r, w2)" by (cases ?set)
  have "quiet ?w1 (snd ?set)"
    by (simp add: quiet_set_active_submode split: option.splits)
  with s have q2: "quiet w w2" by (simp add: quiet_def upd_def)
  show ?thesis
  proof (cases r)
    case (Inl e)
    with False s q2 show ?thesis by (simp add: BaseMulti_activate_def Let_def)
  next
    case (Inr u)
    let ?call = "case manager (heap w2 self) of
                   None \<Rightarrow> (Inl AttributeError, w2)
                 | Some mgr \<Rightarrow>
                     (case active_submode (heap w2 self) of
                        None \<Rightarrow> (Inl AttributeError, w2)
                      | Some sub \<Rightarrow> act mgr sub w2)"
    obtain r3 w3 where c: "?call = (r3, w3)" by (cases ?call)
    have "quiet w2 (snd ?call)"
      by (simp add: assms split: option.splits)
    with c q2 have q3: "quiet w w3" by (auto intro: quiet_trans)
    have q4: "quiet w (snd (BaseMode_activate self mm w3))"
      using q3 quiet_BaseMode_activate [of w3 self mm] by (rule quiet_trans)
    show ?thesis
      using False s Inr c q3 q4
      by (cases r3) (simp_all add: BaseMulti_activate_def Let_def)
  qed
qed

lemma quiet_mode_activate: "quiet w (snd (mode_activate depth self mgr w))"
proof (induction depth arbitrary: self mgr w)
  case 0
  then show ?case by simp
next
  case (Suc depth)
  show ?case
    by (cases "cls (heap w self)")
       (simp_all add: quiet_BaseMode_activate quiet_BaseMulti_activate Suc)
qed



lemma mode_activate_modes:
  "mode_activate depth self mgr w = (r, w') \<Longrightarrow> modes w' = modes w"
  using quiet_mode_activate [of w depth self mgr] by (simp add: quiet_def)



subsection \<open>Nested deactivation\<close>


lemma deactivation_step_refl [simp]: "deactivation_step w w"
  by (simp add: deactivation_step_def)









subsection \<open>Nested activation\<close>

lemma activation_step_refl [simp]: "activation_step mgr w w"
  by (simp add: activation_step_def)






lemma set_active_submode_cls:
  "cls (heap (snd (priv_set_active_submode self sub w)) m) = cls (heap w m)"
  by (cases sub; cases "step_rate (heap w (the sub))")
     (simp_all add: priv_set_active_submode_def upd_def Let_def split: attr.splits)







subsection \<open>Composites of plain modes\<close>


lemma composite_deactivate_idle:
  assumes "cls (heap w c) = BaseMulti"
    and "active_submode (heap w c) = None \<or> \<not> active (heap w c)"
  shows "mode_deactivate (Suc depth) c mgr w =
           (Inr (), w\<lparr>heap := (heap w)(c := (heap w c)\<lparr>active := False\<rparr>),
                       trace := trace w @ [OnDeactivate c]\<rparr>)"
  using assms
  by (cases "active_submode (heap w c)")
     (auto simp add: BaseMulti_deactivate_def priv_deactivate_submode_def BaseMode_deactivate_def
      on_deactivate_def upd_def Let_def)





subsection \<open>Activation of a mode\<close>




subsection \<open>Popping a mode\<close>












subsection \<open>Swapping the top mode\<close>












subsection \<open>The next submode of a composite\<close>

lemma next_mode_None_active:
  "next_mode self loop w = Inr None \<Longrightarrow> active_submode (heap w self) \<noteq> None"
  by (cases "active_submode (heap w self)") (simp_all add: next_mode_def)

lemma activate_next_no_next:
  assumes "next_mode self loop w = Inr None"
  shows "activate_next depth self loop w = (Inl AssertionError, w)"
proof -
  from assms have "active_submode (heap w self) \<noteq> None"
    by (rule next_mode_None_active)
  with assms show ?thesis
    by (auto simp add: activate_next_def priv_activate_submode_def)
qed

lemma activate_next_never_None:
  "fst (activate_next depth self loop w) \<noteq> Inr None"
proof (cases "submodes (heap w self) = []")
  case True
  then show ?thesis by (simp add: activate_next_def)
next
  case False
  show ?thesis
  proof (cases "next_mode self loop w")
    case (Inl e)
    with False show ?thesis by (simp add: activate_next_def)
  next
    case (Inr nxt)
    show ?thesis
    proof (cases nxt)
      case None
      with Inr show ?thesis by (simp add: activate_next_no_next)
    next
      case (Some m)
      with Inr False show ?thesis
        by (simp add: activate_next_def split: prod.splits sum.splits)
    qed
  qed
qed

lemma list_index_last:
  "z \<notin> set subs \<Longrightarrow> list_index z (subs @ [z]) = Inr (length subs)"
  by (induction subs) auto

lemma next_mode_at_last:
  assumes "submodes (heap w self) = subs @ [z]" and "z \<notin> set subs"
    and "active_submode (heap w self) = Some z"
  shows "next_mode self False w = Inr None"
    and "next_mode self True w = Inr (Some (hd (subs @ [z])))"
  using assms by (simp_all add: next_mode_def list_index_last Let_def)

lemma activate_next_at_last_no_loop:
  assumes "submodes (heap w self) = subs @ [z]" and "z \<notin> set subs"
    and "active_submode (heap w self) = Some z"
  shows "activate_next depth self False w = (Inl AssertionError, w)"
  using next_mode_at_last(1) [OF assms] by (rule activate_next_no_next)

lemma activate_next_first:
  assumes "submodes (heap w self) = x # subs" and "active_submode (heap w self) = None"
    and "step_rate (heap w x) \<noteq> Unset" and "\<not> active (heap w self)" and "x \<noteq> self"
  shows "activate_next depth self loop w =
           (Inr (Some x), w\<lparr>heap := (heap w)(self := (heap w self)
              \<lparr>active_submode := Some x, step_rate := step_rate (heap w x)\<rparr>)\<rparr>)"
  using assms
  by (cases "step_rate (heap w x)")
     (simp_all add: activate_next_def next_mode_def priv_activate_submode_def
        priv_deactivate_submode_def priv_set_active_submode_def upd_def Let_def)

lemma activate_next_wraps:
  "activate_next (Suc depth) 10 True at_last_world =
     (Inr (Some 1),
      at_last_world\<lparr>heap := (heap at_last_world)
         (3 := fresh_mode\<lparr>manager := Some 0\<rparr>,
          10 := (heap at_last_world 10)\<lparr>active_submode := Some 1\<rparr>,
          1 := fresh_mode\<lparr>active := True, manager := Some 0\<rparr>),
        trace := [OnDeactivate 3, OnActivate 1]\<rparr>)"
  by (simp add: activate_next_def next_mode_def priv_activate_submode_def
        priv_deactivate_submode_def priv_set_active_submode_def upd_def Let_def
        at_last_world_def fresh_mode_def deactivate_mode_def activate_mode_def
        BaseMode_activate_def BaseMode_deactivate_def on_activate_def on_deactivate_def
        clear_subnode_def fun_upd_twist)

text \<open>
  Claim C5, at a failing input. The composite 10 is active on manager 0, its submodes are
  1, 2, 3 and the last one is the active submode. \<^verbatim>\<open>activate_next(loop=False)\<close> raises
  \<^verbatim>\<open>AssertionError\<close> and leaves the world as it was: the submode is not deactivated, the
  composite stays on its manager, and \<^verbatim>\<open>None\<close> is not returned. (The lemmas above show the
  same for every composite, and that the two other cases of the claim hold.)
\<close>

theorem activate_next_no_loop_raises:
  "activate_next depth 10 False at_last_world = (Inl AssertionError, at_last_world) \<and>
   submodes (heap at_last_world 10) = [1, 2, 3] \<and>
   active_submode (heap at_last_world 10) = Some 3 \<and>
   modes at_last_world 0 = [10]"
  by (simp add: activate_next_def next_mode_def priv_activate_submode_def at_last_world_def
      Let_def)

subsection \<open>Removing a submode\<close>

lemma remove_submode_not_member:
  "m \<notin> set (submodes (heap w self)) \<Longrightarrow> remove_submode depth self (Some m) w = (Inr (), w)"
  by (simp add: remove_submode_def)

lemmas mode_defs =
  remove_submode_def activate_next_def next_mode_def priv_activate_submode_def
  priv_deactivate_submode_def priv_set_active_submode_def clear_subnode_def
  remove_mode_def pop_mode_def current_mode_def activate_mode_def deactivate_mode_def
  BaseMulti_activate_def BaseMulti_deactivate_def BaseMode_activate_def
  BaseMode_deactivate_def on_activate_def on_deactivate_def on_last_mode_pop_def
  upd_def Let_def

text \<open>
  What \<^verbatim>\<open>remove_submode\<close> does in three situations: the only submode is the active one and
  the composite is the one mode of its manager; no submode is active and none is passed;
  the mode passed is the successor of the active submode.
\<close>

lemma remove_single_active_submode:
  assumes "cls (heap w self) = BaseMulti" and "submodes (heap w self) = [x]"
    and "active_submode (heap w self) = Some x" and "cls (heap w x) = BaseMode"
    and "x \<noteq> self" and "active (heap w self)" and "manager (heap w self) = Some mgr"
    and "modes w mgr = [self]"
  shows "\<exists>w'. remove_submode (Suc (Suc depth)) self None w = (Inr (), w') \<and>
           submodes (heap w' self) = [] \<and> active_submode (heap w' self) = None \<and>
           modes w' mgr = [] \<and> \<not> active (heap w' self) \<and> \<not> active (heap w' x) \<and>
           trace w' = trace w @ [OnDeactivate x, OnDeactivate self, OnLastModePop mgr self]"
  using assms by (simp add: mode_defs)


lemma remove_default_without_active_submode:
  assumes "submodes (heap w self) = x # subs" and "active_submode (heap w self) = None"
    and "step_rate (heap w x) \<noteq> Unset" and "\<not> active (heap w self)" and "x \<noteq> self"
  shows "fst (remove_submode depth self None w) = Inl ValueError \<and>
         submodes (heap (snd (remove_submode depth self None w)) self) = x # subs \<and>
         active_submode (heap (snd (remove_submode depth self None w)) self) = Some x"
  using assms
  by (cases "step_rate (heap w x)") (simp_all add: mode_defs)

lemma remove_successor_of_active:
  assumes "cls (heap w self) = BaseMulti" and "submodes (heap w self) = x # y # subs"
    and "active_submode (heap w self) = Some x" and "cls (heap w x) = BaseMode"
    and "cls (heap w y) = BaseMode" and "step_rate (heap w y) \<noteq> Unset"
    and "x \<noteq> y" and "x \<noteq> self" and "y \<noteq> self"
    and "active (heap w self)" and "manager (heap w self) = Some mgr"
    and "modes w mgr = [self]"
  shows "\<exists>w'. remove_submode (Suc (Suc depth)) self (Some y) w = (Inr (), w') \<and>
           submodes (heap w' self) = x # subs \<and> active_submode (heap w' self) = None \<and>
           modes w' mgr = [] \<and> \<not> active (heap w' x)"
  using assms
  by (cases "step_rate (heap w y)") (simp_all add: mode_defs)

lemma remove_only_submode:
  "fst (remove_submode (Suc (Suc depth)) 11 None single_world) = Inr () \<and>
   submodes (heap (snd (remove_submode (Suc (Suc depth)) 11 None single_world)) 11) = [] \<and>
   active_submode (heap (snd (remove_submode (Suc (Suc depth)) 11 None single_world)) 11) = None \<and>
   modes (snd (remove_submode (Suc (Suc depth)) 11 None single_world)) 0 = [] \<and>
   trace (snd (remove_submode (Suc (Suc depth)) 11 None single_world)) =
     [OnDeactivate 1, OnDeactivate 11, OnLastModePop 0 11]"
  by (simp add: mode_defs single_world_def fresh_mode_def)

lemma remove_successor_drops_composite:
  "fst (remove_submode (Suc (Suc depth)) 10 (Some 2) at_first_world) = Inr () \<and>
   submodes (heap (snd (remove_submode (Suc (Suc depth)) 10 (Some 2) at_first_world)) 10) = [1, 3] \<and>
   active_submode (heap (snd (remove_submode (Suc (Suc depth)) 10 (Some 2) at_first_world)) 10) = None \<and>
   modes (snd (remove_submode (Suc (Suc depth)) 10 (Some 2) at_first_world)) 0 = [] \<and>
   trace (snd (remove_submode (Suc (Suc depth)) 10 (Some 2) at_first_world)) =
     [OnDeactivate 1, OnActivate 2, OnDeactivate 2, OnDeactivate 10, OnLastModePop 0 10]"
  by (simp add: mode_defs at_first_world_def fresh_mode_def)

text \<open>
  Claim C6, at a failing input. The composite 11 has the single submode 1 and no active
  submode. \<^verbatim>\<open>remove_submode()\<close> raises \<^verbatim>\<open>ValueError\<close>; the submode is still in the list,
  and it has become the active submode. (With an active submode the single submode is
  removed and the composite leaves its manager, lemma \<open>remove_only_submode\<close>; a mode that
  is passed and is not a submode changes nothing, lemma \<open>remove_submode_not_member\<close>.)
\<close>

theorem remove_submode_default_raises:
  "submodes (heap new_world 11) = [1] \<and>
   active_submode (heap new_world 11) = None \<and>
   fst (remove_submode depth 11 None new_world) = Inl ValueError \<and>
   submodes (heap (snd (remove_submode depth 11 None new_world)) 11) = [1] \<and>
   active_submode (heap (snd (remove_submode depth 11 None new_world)) 11) = Some 1"
  by (simp add: mode_defs new_world_def fresh_mode_def fresh_multi_def)

end
